theory Spec2Isabelle
  imports Main "HOL-Library.Word" "HOL-Library.AList"
begin

unbundle bit_operations_syntax

section \<open>Configuration\<close>

text \<open>
  The header selects the integer types by the word size of the target; the model takes the
  64-bit configuration (\<open>ECS64\<close>): \<open>ComponentType\<close>, \<open>Entity\<close> and \<open>std::size_t\<close>
  are unsigned 64-bit integers, so \<open>+\<close> and \<open>-\<close> wrap around as in the program.
  \<open>COMPONENT_MAX\<close> and \<open>ENTITY_MAX\<close> have the defaults of the header (32 and 5000), and
  a \<open>Signature\<close> is a \<open>std::bitset<COMPONENT_MAX>\<close>, a vector of 32 bits.
\<close>

type_synonym ComponentType = "64 word"
type_synonym Entity = "64 word"
type_synonym size_t = "64 word"
type_synonym Signature = "32 word"

definition COMPONENT_MAX :: ComponentType where
  "COMPONENT_MAX = 32"

definition ENTITY_MAX :: Entity where
  "ENTITY_MAX = 5000"

text \<open>
  Every check of the program is an \<open>assert\<close>; a failed assertion ends the call with no
  update made. The model returns the failure as a value, named after the condition the
  assertion guards. \<open>OutOfRange\<close> is the \<open>std::out_of_range\<close> that \<open>std::bitset::set\<close>
  throws for a position beyond the width. \<open>UndefinedBehaviour\<close> marks what C++ leaves
  undefined: \<open>front()\<close> of an empty queue, an index beyond the end of a \<open>std::array\<close>,
  a null \<open>shared_ptr\<close> dereferenced.
\<close>

datatype error =
    CapacityExceeded
  | InvalidEntity
  | DuplicateRegistration
  | NotRegistered
  | DuplicateComponent
  | MissingComponent
  | OutOfRange
  | UndefinedBehaviour

text \<open>Sequencing of calls that may fail: the first failure ends the sequence.\<close>

definition and_then :: "error + 'a \<Rightarrow> ('a \<Rightarrow> error + 'b) \<Rightarrow> error + 'b" where
  "and_then r f = (case r of Inl err \<Rightarrow> Inl err | Inr x \<Rightarrow> f x)"

section \<open>Entity manager\<close>

text \<open>
  \<open>entitiesAvailable\<close> is the \<open>std::queue\<close>: its front is the head of the list and
  \<open>push\<close> appends at the end. \<open>entitySignatures\<close> is the array \<open>signatures_\<close>; every access
  of the program is behind an assertion \<open>entity < ENTITY_MAX\<close>, so the array is a function
  that is only read and written below \<open>ENTITY_MAX\<close>.
\<close>

record EntityManager =
  entitiesAvailable :: "Entity list"
  entitiesLiving :: Entity
  entitySignatures :: "Entity \<Rightarrow> Signature"

text \<open>The constructor's loop: \<open>for (entity = 0; entity < ENTITY_MAX; ++entity) push(entity)\<close>.\<close>

function fillAvailable :: "Entity \<Rightarrow> Entity list \<Rightarrow> Entity list" where
  "fillAvailable entity q =
     (if entity < ENTITY_MAX then fillAvailable (entity + 1) (q @ [entity]) else q)"
  by pat_completeness auto
termination
proof (relation "measure (\<lambda>(entity, q). unat ENTITY_MAX - unat entity)")
  show "wf (measure (\<lambda>(entity, q). unat ENTITY_MAX - unat entity))"
    by simp
next
  fix entity :: Entity and q :: "Entity list"
  assume lt: "entity < ENTITY_MAX"
  then have "unat entity < 5000"
    by (simp add: ENTITY_MAX_def word_less_nat_alt)
  then have "unat (entity + 1) = unat entity + 1"
    by (simp add: unat_word_ariths)
  with lt show "((entity + 1, q @ [entity]), (entity, q))
      \<in> measure (\<lambda>(entity, q). unat ENTITY_MAX - unat entity)"
    by (simp add: word_less_nat_alt)
qed

declare fillAvailable.simps [simp del]

definition EntityManager_init :: EntityManager where
  "EntityManager_init =
     \<lparr>entitiesAvailable = fillAvailable 0 [], entitiesLiving = 0,
      entitySignatures = (\<lambda>entity. 0)\<rparr>"

definition EntityManager_create :: "EntityManager \<Rightarrow> error + (Entity \<times> EntityManager)" where
  "EntityManager_create m =
     (if \<not> entitiesLiving m < ENTITY_MAX then Inl CapacityExceeded
      else case entitiesAvailable m of
          [] \<Rightarrow> Inl UndefinedBehaviour
        | entity # rest \<Rightarrow>
            Inr (entity, m\<lparr>entitiesAvailable := rest, entitiesLiving := entitiesLiving m + 1\<rparr>))"

definition EntityManager_destroy :: "Entity \<Rightarrow> EntityManager \<Rightarrow> error + EntityManager" where
  "EntityManager_destroy entity m =
     (if \<not> entity < ENTITY_MAX then Inl InvalidEntity
      else Inr (m\<lparr>entitySignatures := (entitySignatures m)(entity := 0),
                  entitiesAvailable := entitiesAvailable m @ [entity],
                  entitiesLiving := entitiesLiving m - 1\<rparr>))"

text \<open>The two overloads of \<open>signature\<close>: the read and the write.\<close>

definition EntityManager_signature :: "Entity \<Rightarrow> EntityManager \<Rightarrow> error + Signature" where
  "EntityManager_signature entity m =
     (if \<not> entity < ENTITY_MAX then Inl InvalidEntity else Inr (entitySignatures m entity))"

definition EntityManager_signature_set ::
  "Entity \<Rightarrow> Signature \<Rightarrow> EntityManager \<Rightarrow> error + EntityManager" where
  "EntityManager_signature_set entity signature m =
     (if \<not> entity < ENTITY_MAX then Inl InvalidEntity
      else Inr (m\<lparr>entitySignatures := (entitySignatures m)(entity := signature)\<rparr>))"

subsection \<open>Runs of the entity manager\<close>

text \<open>
  The program keeps no record of which handles are live, only their number. A run of
  calls carries that set beside the manager: \<open>create\<close> adds the handle it returns, and
  \<open>destroy\<close> and the signature write are called on live handles only, the use the
  specification asks of a host (a destroyed handle is not retained). A call that fails,
  or that addresses a handle that is not live, ends the run with \<open>None\<close>.
\<close>

datatype em_call = Create | Destroy Entity | SetSignature Entity Signature

fun em_step :: "em_call \<Rightarrow> EntityManager \<times> Entity set \<Rightarrow> (EntityManager \<times> Entity set) option" where
  "em_step Create (m, live) =
     (case EntityManager_create m of
        Inl err \<Rightarrow> None
      | Inr (entity, m') \<Rightarrow> Some (m', insert entity live))"
| "em_step (Destroy entity) (m, live) =
     (if entity \<in> live then
        (case EntityManager_destroy entity m of
           Inl err \<Rightarrow> None
         | Inr m' \<Rightarrow> Some (m', live - {entity}))
      else None)"
| "em_step (SetSignature entity signature) (m, live) =
     (if entity \<in> live then
        (case EntityManager_signature_set entity signature m of
           Inl err \<Rightarrow> None
         | Inr m' \<Rightarrow> Some (m', live))
      else None)"

fun em_run :: "em_call list \<Rightarrow> EntityManager \<times> Entity set \<Rightarrow> (EntityManager \<times> Entity set) option" where
  "em_run [] s = Some s"
| "em_run (c # cs) s = (case em_step c s of None \<Rightarrow> None | Some s' \<Rightarrow> em_run cs s')"

text \<open>
  The calls as the program accepts them, with no condition on the handle beyond the
  assertions of the code: the first failure ends the run and is its result.
  \<open>writes_signature entity c\<close> says that the call \<open>c\<close> is a signature write addressed to
  \<open>entity\<close>.
\<close>

fun EntityManager_call :: "em_call \<Rightarrow> EntityManager \<Rightarrow> error + EntityManager" where
  "EntityManager_call Create m =
     and_then (EntityManager_create m) (\<lambda>(entity, m'). Inr m')"
| "EntityManager_call (Destroy entity) m = EntityManager_destroy entity m"
| "EntityManager_call (SetSignature entity signature) m =
     EntityManager_signature_set entity signature m"

fun EntityManager_run :: "em_call list \<Rightarrow> EntityManager \<Rightarrow> error + EntityManager" where
  "EntityManager_run [] m = Inr m"
| "EntityManager_run (c # cs) m = and_then (EntityManager_call c m) (EntityManager_run cs)"

fun writes_signature :: "Entity \<Rightarrow> em_call \<Rightarrow> bool" where
  "writes_signature entity Create = False"
| "writes_signature entity (Destroy entity') = False"
| "writes_signature entity (SetSignature entity' signature) = (entity' = entity)"

text \<open>\<open>create\<close> called \<open>n\<close> times in a row, with the handles in the order returned.\<close>

fun create_n :: "nat \<Rightarrow> EntityManager \<Rightarrow> error + (Entity list \<times> EntityManager)" where
  "create_n 0 m = Inr ([], m)"
| "create_n (Suc n) m =
     (case EntityManager_create m of
        Inl err \<Rightarrow> Inl err
      | Inr (entity, m') \<Rightarrow>
          (case create_n n m' of
             Inl err \<Rightarrow> Inl err
           | Inr (entities, m'') \<Rightarrow> Inr (entity # entities, m'')))"

text \<open>The invariant of a run.\<close>

definition em_inv :: "EntityManager \<times> Entity set \<Rightarrow> bool" where
  "em_inv s =
     (case s of (m, live) \<Rightarrow>
        distinct (entitiesAvailable m) \<and>
        set (entitiesAvailable m) = {entity. entity < ENTITY_MAX} - live \<and>
        live \<subseteq> {entity. entity < ENTITY_MAX} \<and>
        unat (entitiesLiving m) = card live \<and>
        list_all (\<lambda>entity. entitySignatures m entity = 0) (entitiesAvailable m))"

section \<open>Component containers\<close>

text \<open>
  A \<open>ComponentContainer<T>\<close> holds the values of one component type: the array
  \<open>components_\<close> of \<open>ENTITY_MAX\<close> values, the two \<open>std::unordered_map\<close>s between
  entities and array indices, and the number \<open>size_\<close> of occupied slots (a
  \<open>std::size_t\<close>, the field \<open>size_c\<close> here). The array is a function of the index; an
  access at an index that is not below \<open>ENTITY_MAX\<close> is undefined in C++ and an
  \<open>UndefinedBehaviour\<close> result here. The constructor's array holds default-constructed
  values: the parameter \<open>d\<close>.
\<close>

record 'v ComponentContainer =
  components :: "size_t \<Rightarrow> 'v"
  mapEntityToIndex :: "Entity \<rightharpoonup> size_t"
  mapIndexToEntity :: "size_t \<rightharpoonup> Entity"
  size_c :: size_t

definition ComponentContainer_init :: "'v \<Rightarrow> 'v ComponentContainer" where
  "ComponentContainer_init d =
     \<lparr>components = (\<lambda>index. d), mapEntityToIndex = Map.empty,
      mapIndexToEntity = Map.empty, size_c = 0\<rparr>"

definition ComponentContainer_get :: "Entity \<Rightarrow> 'v ComponentContainer \<Rightarrow> error + 'v" where
  "ComponentContainer_get entity c =
     (case mapEntityToIndex c entity of
        None \<Rightarrow> Inl MissingComponent
      | Some index \<Rightarrow>
          if \<not> index < ENTITY_MAX then Inl UndefinedBehaviour
          else Inr (components c index))"

definition ComponentContainer_insert ::
  "Entity \<Rightarrow> 'v \<Rightarrow> 'v ComponentContainer \<Rightarrow> error + 'v ComponentContainer" where
  "ComponentContainer_insert entity component c =
     (if mapEntityToIndex c entity \<noteq> None then Inl DuplicateComponent
      else
        let index = size_c c in
        if \<not> index < ENTITY_MAX then Inl UndefinedBehaviour
        else Inr (c\<lparr>mapEntityToIndex := (mapEntityToIndex c)(entity \<mapsto> index),
                    mapIndexToEntity := (mapIndexToEntity c)(index \<mapsto> entity),
                    components := (components c)(index := component),
                    size_c := size_c c + 1\<rparr>))"

text \<open>
  \<open>remove\<close>, the swap-remove. \<open>mapIndexToEntity_[indexLast]\<close> is \<open>operator[]\<close>, which
  yields a value-initialised entity, 0, for an index the map does not hold (the entry it
  adds is the one erased two statements later).
\<close>

definition ComponentContainer_remove ::
  "Entity \<Rightarrow> 'v ComponentContainer \<Rightarrow> error + 'v ComponentContainer" where
  "ComponentContainer_remove entity c =
     (case mapEntityToIndex c entity of
        None \<Rightarrow> Inl MissingComponent
      | Some indexRemoved \<Rightarrow>
          let indexLast = size_c c - 1 in
          if \<not> (indexRemoved < ENTITY_MAX \<and> indexLast < ENTITY_MAX) then Inl UndefinedBehaviour
          else
            let components' = (components c)(indexRemoved := components c indexLast);
                entityLast = (case mapIndexToEntity c indexLast of None \<Rightarrow> 0 | Some e \<Rightarrow> e);
                entityToIndex = (mapEntityToIndex c)(entityLast \<mapsto> indexRemoved);
                indexToEntity = (mapIndexToEntity c)(indexRemoved \<mapsto> entityLast)
            in Inr (c\<lparr>components := components',
                       mapEntityToIndex := entityToIndex(entity := None),
                       mapIndexToEntity := indexToEntity(indexLast := None),
                       size_c := size_c c - 1\<rparr>))"

definition ComponentContainer_destroyed ::
  "Entity \<Rightarrow> 'v ComponentContainer \<Rightarrow> error + 'v ComponentContainer" where
  "ComponentContainer_destroyed entity c =
     (if mapEntityToIndex c entity = None then Inr c
      else ComponentContainer_remove entity c)"

text \<open>
  A sequence of calls on one container, each on the container the call before left; the
  first failure ends the run and is its result.
\<close>

datatype 'v container_call = Insert Entity 'v | Remove Entity | Destroyed Entity

fun ComponentContainer_call ::
  "'v container_call \<Rightarrow> 'v ComponentContainer \<Rightarrow> error + 'v ComponentContainer" where
  "ComponentContainer_call (Insert entity component) c = ComponentContainer_insert entity component c"
| "ComponentContainer_call (Remove entity) c = ComponentContainer_remove entity c"
| "ComponentContainer_call (Destroyed entity) c = ComponentContainer_destroyed entity c"

fun ComponentContainer_run ::
  "'v container_call list \<Rightarrow> 'v ComponentContainer \<Rightarrow> error + 'v ComponentContainer" where
  "ComponentContainer_run [] c = Inr c"
| "ComponentContainer_run (x # xs) c =
     and_then (ComponentContainer_call x c) (ComponentContainer_run xs)"

text \<open>
  The invariant of a container, from the data model: at most \<open>ENTITY_MAX\<close> slots are
  occupied; the occupied slots, the indices the index map holds, are exactly those below
  \<open>size_\<close>; and the two maps are inverse to each other. Every container that a run of
  calls reaches from the constructor satisfies it.
\<close>

definition dense :: "'v ComponentContainer \<Rightarrow> bool" where
  "dense c =
     (size_c c \<le> ENTITY_MAX \<and>
      dom (mapIndexToEntity c) = {index. index < size_c c} \<and>
      (\<forall>entity index.
         (mapEntityToIndex c entity = Some index) = (mapIndexToEntity c index = Some entity)))"

section \<open>Component manager\<close>

text \<open>
  The keys of the manager's maps are the pointers \<open>typeid(T).name()\<close>, one per type: a
  \<open>type_name\<close>. All containers hold values of one type \<open>'v\<close>. The map
  \<open>componentContainer_\<close>, which \<open>destroyed\<close> iterates, is an association list with one
  entry per key; the order of the iteration of a \<open>std::unordered_map\<close> is not specified,
  and each round of the loop touches the container of its own key only.
  \<open>std::unordered_map::insert\<close> keeps the entry of a key the map already holds.
\<close>

type_synonym type_name = string

definition unordered_map_insert :: "'k \<Rightarrow> 'a \<Rightarrow> ('k \<times> 'a) list \<Rightarrow> ('k \<times> 'a) list" where
  "unordered_map_insert k v m = (if map_of m k = None then m @ [(k, v)] else m)"

record 'v ComponentManager =
  componentTypes :: "type_name \<rightharpoonup> ComponentType"
  componentContainer :: "(type_name \<times> 'v ComponentContainer) list"
  nextType :: ComponentType

text \<open>
  The manager has no constructor of its own; \<open>std::make_unique<ComponentManager>()\<close>
  value-initialises it: empty maps and \<open>nextType_ = 0\<close>.
\<close>

definition ComponentManager_init :: "'v ComponentManager" where
  "ComponentManager_init = \<lparr>componentTypes = Map.empty, componentContainer = [], nextType = 0\<rparr>"

text \<open>
  \<open>getContainer_\<close>: behind the assertion, \<open>componentContainer_[type]\<close> of a key the map
  does not hold is a null pointer, which the caller dereferences.
\<close>

definition ComponentManager_getContainer ::
  "type_name \<Rightarrow> 'v ComponentManager \<Rightarrow> error + 'v ComponentContainer" where
  "ComponentManager_getContainer type cm =
     (if componentTypes cm type = None then Inl NotRegistered
      else case map_of (componentContainer cm) type of
          None \<Rightarrow> Inl UndefinedBehaviour
        | Some c \<Rightarrow> Inr c)"

text \<open>The container is shared: a call on it updates the entry of the map.\<close>

definition ComponentManager_add ::
  "type_name \<Rightarrow> Entity \<Rightarrow> 'v \<Rightarrow> 'v ComponentManager \<Rightarrow> error + 'v ComponentManager" where
  "ComponentManager_add type entity component cm =
     and_then (ComponentManager_getContainer type cm) (\<lambda>c.
     and_then (ComponentContainer_insert entity component c) (\<lambda>c'.
     Inr (cm\<lparr>componentContainer := AList.update type c' (componentContainer cm)\<rparr>)))"

fun ComponentManager_destroyed_loop ::
  "Entity \<Rightarrow> (type_name \<times> 'v ComponentContainer) list
     \<Rightarrow> error + (type_name \<times> 'v ComponentContainer) list" where
  "ComponentManager_destroyed_loop entity [] = Inr []"
| "ComponentManager_destroyed_loop entity ((type, component) # rest) =
     and_then (ComponentContainer_destroyed entity component) (\<lambda>component'.
     and_then (ComponentManager_destroyed_loop entity rest) (\<lambda>rest'.
     Inr ((type, component') # rest')))"

definition ComponentManager_destroyed ::
  "Entity \<Rightarrow> 'v ComponentManager \<Rightarrow> error + 'v ComponentManager" where
  "ComponentManager_destroyed entity cm =
     and_then (ComponentManager_destroyed_loop entity (componentContainer cm)) (\<lambda>containers.
     Inr (cm\<lparr>componentContainer := containers\<rparr>))"

definition ComponentManager_get ::
  "type_name \<Rightarrow> Entity \<Rightarrow> 'v ComponentManager \<Rightarrow> error + 'v" where
  "ComponentManager_get type entity cm =
     and_then (ComponentManager_getContainer type cm) (ComponentContainer_get entity)"

definition ComponentManager_getType ::
  "type_name \<Rightarrow> 'v ComponentManager \<Rightarrow> error + ComponentType" where
  "ComponentManager_getType type cm =
     (case componentTypes cm type of None \<Rightarrow> Inl NotRegistered | Some t \<Rightarrow> Inr t)"

definition ComponentManager_install ::
  "type_name \<Rightarrow> 'v \<Rightarrow> 'v ComponentManager \<Rightarrow> error + 'v ComponentManager" where
  "ComponentManager_install type d cm =
     (if componentTypes cm type \<noteq> None then Inl DuplicateRegistration
      else Inr (cm\<lparr>componentTypes := (componentTypes cm)(type \<mapsto> nextType cm),
                  componentContainer :=
                    unordered_map_insert type (ComponentContainer_init d) (componentContainer cm),
                  nextType := nextType cm + 1\<rparr>))"

definition ComponentManager_remove ::
  "type_name \<Rightarrow> Entity \<Rightarrow> 'v ComponentManager \<Rightarrow> error + 'v ComponentManager" where
  "ComponentManager_remove type entity cm =
     and_then (ComponentManager_getContainer type cm) (\<lambda>c.
     and_then (ComponentContainer_remove entity c) (\<lambda>c'.
     Inr (cm\<lparr>componentContainer := AList.update type c' (componentContainer cm)\<rparr>)))"

section \<open>System manager\<close>

record System =
  entities :: "Entity set"

text \<open>
  \<open>systemSignatures\<close> is the map \<open>signatures_\<close> of the system manager, \<open>systems\<close> the map
  \<open>systems_\<close>, which the two notifications iterate (an association list, as for the
  containers). A system is shared with the caller of \<open>install\<close>, who reads its entity set
  from the map here.
\<close>

record SystemManager =
  systemSignatures :: "type_name \<rightharpoonup> Signature"
  systems :: "(type_name \<times> System) list"

definition SystemManager_init :: SystemManager where
  "SystemManager_init = \<lparr>systemSignatures = Map.empty, systems = []\<rparr>"

definition SystemManager_entityDestroyed :: "Entity \<Rightarrow> SystemManager \<Rightarrow> SystemManager" where
  "SystemManager_entityDestroyed entity sm =
     sm\<lparr>systems :=
          map (\<lambda>(type, system). (type, system\<lparr>entities := entities system - {entity}\<rparr>))
            (systems sm)\<rparr>"

definition SystemManager_install :: "type_name \<Rightarrow> SystemManager \<Rightarrow> error + SystemManager" where
  "SystemManager_install type sm =
     (if map_of (systems sm) type \<noteq> None then Inl DuplicateRegistration
      else Inr (sm\<lparr>systems := unordered_map_insert type \<lparr>entities = {}\<rparr> (systems sm)\<rparr>))"

text \<open>
  \<open>signature<T>(signature)\<close> stores with \<open>signatures_.insert\<close>, which leaves the entry of
  a key the map already holds as it is.
\<close>

definition SystemManager_signature ::
  "type_name \<Rightarrow> Signature \<Rightarrow> SystemManager \<Rightarrow> error + SystemManager" where
  "SystemManager_signature type signature sm =
     (if map_of (systems sm) type = None then Inl NotRegistered
      else Inr (sm\<lparr>systemSignatures :=
                    (if systemSignatures sm type = None
                     then (systemSignatures sm)(type \<mapsto> signature)
                     else systemSignatures sm)\<rparr>))"

text \<open>
  The test of \<open>signatureChanged\<close> is \<open>(signatureEntity && signatureSystem) ==
  signatureSystem\<close>. The operator is the logical \<open>&&\<close>, not the bitwise \<open>&\<close>.
  \<open>std::bitset\<close> declares no conversion to \<open>bool\<close>; the model reads the expression
  as C++ reads it for signatures that are unsigned integers: each operand counts as true
  when it is not zero (some bit is set), and the result, \<open>false\<close> or \<open>true\<close>, is
  compared with the mask as the signature of value 0 or 1. The template parameter \<open>T\<close>
  of \<open>signatureChanged\<close> is not used in its body.
\<close>

definition logical_and :: "Signature \<Rightarrow> Signature \<Rightarrow> bool" where
  "logical_and a b = (a \<noteq> 0 \<and> b \<noteq> 0)"

definition signature_of_bool :: "bool \<Rightarrow> Signature" where
  "signature_of_bool b = (if b then 1 else 0)"

text \<open>
  The loop of \<open>signatureChanged\<close> over \<open>systems_\<close>. \<open>signatures_[type]\<close> is
  \<open>operator[]\<close>: for a system with no signature stored it adds the all-zero signature to
  the map and yields it.
\<close>

fun SystemManager_signatureChanged_loop ::
  "Entity \<Rightarrow> Signature \<Rightarrow> (type_name \<times> System) list \<Rightarrow> (type_name \<rightharpoonup> Signature)
     \<Rightarrow> (type_name \<times> System) list \<times> (type_name \<rightharpoonup> Signature)" where
  "SystemManager_signatureChanged_loop entity signatureEntity [] sigs = ([], sigs)"
| "SystemManager_signatureChanged_loop entity signatureEntity ((type, system) # rest) sigs =
     (let signatureSystem = (case sigs type of None \<Rightarrow> 0 | Some s \<Rightarrow> s);
          sigs' = sigs(type \<mapsto> signatureSystem);
          system' =
            (if signature_of_bool (logical_and signatureEntity signatureSystem) = signatureSystem
             then system\<lparr>entities := insert entity (entities system)\<rparr>
             else system\<lparr>entities := entities system - {entity}\<rparr>);
          result = SystemManager_signatureChanged_loop entity signatureEntity rest sigs'
      in ((type, system') # fst result, snd result))"

definition SystemManager_signatureChanged ::
  "Entity \<Rightarrow> Signature \<Rightarrow> SystemManager \<Rightarrow> SystemManager" where
  "SystemManager_signatureChanged entity signatureEntity sm =
     (let result = SystemManager_signatureChanged_loop entity signatureEntity
                   (systems sm) (systemSignatures sm)
      in sm\<lparr>systems := fst result, systemSignatures := snd result\<rparr>)"

section \<open>Registry\<close>

record 'v Registry =
  componentManager :: "'v ComponentManager"
  entityManager :: EntityManager
  systemManager :: SystemManager

definition Registry_init :: "'v Registry" where
  "Registry_init =
     \<lparr>componentManager = ComponentManager_init, entityManager = EntityManager_init,
      systemManager = SystemManager_init\<rparr>"

text \<open>
  \<open>std::bitset::set(pos, val)\<close> throws \<open>std::out_of_range\<close> when \<open>pos\<close> is not a position
  of the bitset.
\<close>

definition bitset_set :: "Signature \<Rightarrow> ComponentType \<Rightarrow> bool \<Rightarrow> error + Signature" where
  "bitset_set signature pos val =
     (if \<not> pos < COMPONENT_MAX then Inl OutOfRange
      else Inr (if val then set_bit (unat pos) signature else unset_bit (unat pos) signature))"

definition Registry_entityCreate :: "'v Registry \<Rightarrow> error + (Entity \<times> 'v Registry)" where
  "Registry_entityCreate r =
     and_then (EntityManager_create (entityManager r)) (\<lambda>(entity, em).
     Inr (entity, r\<lparr>entityManager := em\<rparr>))"

definition Registry_entityDestroy :: "Entity \<Rightarrow> 'v Registry \<Rightarrow> error + 'v Registry" where
  "Registry_entityDestroy entity r =
     and_then (EntityManager_destroy entity (entityManager r)) (\<lambda>em.
     and_then (ComponentManager_destroyed entity (componentManager r)) (\<lambda>cm.
     Inr \<lparr>componentManager = cm, entityManager = em,
          systemManager = SystemManager_entityDestroyed entity (systemManager r)\<rparr>))"

text \<open>
  \<open>componentAdd<T>(entity, component)\<close>: the body installs \<open>T\<close>, reads the signature, sets
  the bit of \<open>T\<close>, writes the signature and notifies the systems. It does not use its
  parameter \<open>component\<close>, and it does not call \<open>ComponentManager::add\<close>.
\<close>

definition Registry_componentAdd ::
  "type_name \<Rightarrow> 'v \<Rightarrow> Entity \<Rightarrow> 'v \<Rightarrow> 'v Registry \<Rightarrow> error + 'v Registry" where
  "Registry_componentAdd type d entity component r =
     and_then (ComponentManager_install type d (componentManager r)) (\<lambda>cm.
     and_then (EntityManager_signature entity (entityManager r)) (\<lambda>signature.
     and_then (ComponentManager_getType type cm) (\<lambda>t.
     and_then (bitset_set signature t True) (\<lambda>signature'.
     and_then (EntityManager_signature_set entity signature' (entityManager r)) (\<lambda>em.
     Inr \<lparr>componentManager = cm, entityManager = em,
          systemManager = SystemManager_signatureChanged entity signature' (systemManager r)\<rparr>)))))"

definition Registry_componentGet :: "type_name \<Rightarrow> Entity \<Rightarrow> 'v Registry \<Rightarrow> error + 'v" where
  "Registry_componentGet type entity r = ComponentManager_get type entity (componentManager r)"

definition Registry_componentInstall :: "type_name \<Rightarrow> 'v \<Rightarrow> 'v Registry \<Rightarrow> error + 'v Registry" where
  "Registry_componentInstall type d r =
     and_then (ComponentManager_install type d (componentManager r)) (\<lambda>cm.
     Inr (r\<lparr>componentManager := cm\<rparr>))"

definition Registry_componentRemove :: "type_name \<Rightarrow> Entity \<Rightarrow> 'v Registry \<Rightarrow> error + 'v Registry" where
  "Registry_componentRemove type entity r =
     and_then (ComponentManager_remove type entity (componentManager r)) (\<lambda>cm.
     and_then (EntityManager_signature entity (entityManager r)) (\<lambda>signature.
     and_then (ComponentManager_getType type cm) (\<lambda>t.
     and_then (bitset_set signature t False) (\<lambda>signature'.
     and_then (EntityManager_signature_set entity signature' (entityManager r)) (\<lambda>em.
     Inr \<lparr>componentManager = cm, entityManager = em,
          systemManager = SystemManager_signatureChanged entity signature' (systemManager r)\<rparr>)))))"

definition Registry_componentType :: "type_name \<Rightarrow> 'v Registry \<Rightarrow> error + ComponentType" where
  "Registry_componentType type r = ComponentManager_getType type (componentManager r)"

definition Registry_systemInstall :: "type_name \<Rightarrow> 'v Registry \<Rightarrow> error + 'v Registry" where
  "Registry_systemInstall type r =
     and_then (SystemManager_install type (systemManager r)) (\<lambda>sm.
     Inr (r\<lparr>systemManager := sm\<rparr>))"

definition Registry_systemSignature ::
  "type_name \<Rightarrow> Signature \<Rightarrow> 'v Registry \<Rightarrow> error + 'v Registry" where
  "Registry_systemSignature type signature r =
     and_then (SystemManager_signature type signature (systemManager r)) (\<lambda>sm.
     Inr (r\<lparr>systemManager := sm\<rparr>))"

subsection \<open>Runs of the registry\<close>

text \<open>
  A sequence of calls of the facade, each on the registry the call before left; the first
  failure ends the run and is its result. \<open>d\<close> is the default-constructed component value.
\<close>

datatype 'v call =
    EntityCreate
  | EntityDestroy Entity
  | ComponentAdd type_name Entity 'v
  | ComponentInstall type_name
  | ComponentRemove type_name Entity
  | SystemInstall type_name
  | SystemSignature type_name Signature

fun Registry_call :: "'v \<Rightarrow> 'v call \<Rightarrow> 'v Registry \<Rightarrow> error + 'v Registry" where
  "Registry_call d EntityCreate r =
     and_then (Registry_entityCreate r) (\<lambda>(entity, r'). Inr r')"
| "Registry_call d (EntityDestroy entity) r = Registry_entityDestroy entity r"
| "Registry_call d (ComponentAdd type entity component) r =
     Registry_componentAdd type d entity component r"
| "Registry_call d (ComponentInstall type) r = Registry_componentInstall type d r"
| "Registry_call d (ComponentRemove type entity) r = Registry_componentRemove type entity r"
| "Registry_call d (SystemInstall type) r = Registry_systemInstall type r"
| "Registry_call d (SystemSignature type signature) r = Registry_systemSignature type signature r"

fun Registry_run :: "'v \<Rightarrow> 'v call list \<Rightarrow> 'v Registry \<Rightarrow> error + 'v Registry" where
  "Registry_run d [] r = Inr r"
| "Registry_run d (c # cs) r = and_then (Registry_call d c r) (Registry_run d cs)"

section \<open>The entity manager: the invariant of a run\<close>

lemma unat_ENTITY_MAX: "unat ENTITY_MAX = 5000"
  by (simp add: ENTITY_MAX_def)

lemma entity_lt_iff: "(entity < ENTITY_MAX) = (unat entity < 5000)"
  by (simp add: word_less_nat_alt unat_ENTITY_MAX)

lemma entity_range_image: "unat ` {entity :: Entity. entity < ENTITY_MAX} = {0..<5000}"
proof (rule set_eqI)
  fix n :: nat
  show "n \<in> unat ` {entity :: Entity. entity < ENTITY_MAX} \<longleftrightarrow> n \<in> {0..<5000}"
  proof
    assume "n \<in> unat ` {entity :: Entity. entity < ENTITY_MAX}"
    then show "n \<in> {0..<5000}"
      by (auto simp: entity_lt_iff)
  next
    assume n: "n \<in> {0..<5000}"
    then have "unat (of_nat n :: Entity) = n"
      by (simp add: unat_of_nat)
    with n have "(of_nat n :: Entity) \<in> {entity. entity < ENTITY_MAX}"
      by (simp add: entity_lt_iff)
    then have "unat (of_nat n :: Entity) \<in> unat ` {entity :: Entity. entity < ENTITY_MAX}"
      by (rule imageI)
    with \<open>unat (of_nat n :: Entity) = n\<close> show "n \<in> unat ` {entity :: Entity. entity < ENTITY_MAX}"
      by simp
  qed
qed

lemma entity_range_card: "card {entity :: Entity. entity < ENTITY_MAX} = 5000"
proof -
  have "inj_on unat {entity :: Entity. entity < ENTITY_MAX}"
    by (rule inj_onI) (simp add: word_unat_eq_iff)
  then have "card (unat ` {entity :: Entity. entity < ENTITY_MAX})
      = card {entity :: Entity. entity < ENTITY_MAX}"
    by (rule card_image)
  then show ?thesis
    by (simp add: entity_range_image)
qed

lemma fillAvailable_eq:
  "unat entity \<le> 5000 \<Longrightarrow> fillAvailable entity q = q @ map of_nat [unat entity..<5000]"
proof (induction entity q rule: fillAvailable.induct)
  case (1 entity q)
  show ?case
  proof (cases "entity < ENTITY_MAX")
    case True
    then have lt: "unat entity < 5000"
      by (simp add: entity_lt_iff)
    then have suc: "unat (entity + 1) = Suc (unat entity)"
      by (simp add: unat_word_ariths)
    have "fillAvailable entity q = fillAvailable (entity + 1) (q @ [entity])"
      using True by (simp add: fillAvailable.simps [of entity q])
    also have "\<dots> = (q @ [entity]) @ map of_nat [unat (entity + 1)..<5000]"
      using True lt suc by (intro "1.IH") simp_all
    also have "\<dots> = q @ map of_nat [unat entity..<5000]"
      using lt suc by (simp add: upt_conv_Cons)
    finally show ?thesis .
  next
    case False
    with "1.prems" have "unat entity = 5000"
      by (simp add: entity_lt_iff)
    with False show ?thesis
      by (simp add: fillAvailable.simps [of entity q])
  qed
qed

lemma init_available: "entitiesAvailable EntityManager_init = map of_nat [0..<5000]"
  by (simp add: EntityManager_init_def fillAvailable_eq)

lemma init_available_distinct: "distinct (map (of_nat :: nat \<Rightarrow> Entity) [0..<5000])"
proof -
  have "inj_on (of_nat :: nat \<Rightarrow> Entity) (set [0..<5000])"
  proof (rule inj_onI)
    fix x y :: nat
    assume x: "x \<in> set [0..<5000]" and y: "y \<in> set [0..<5000]"
      and eq: "(of_nat x :: Entity) = of_nat y"
    from eq have "unat (of_nat x :: Entity) = unat (of_nat y :: Entity)"
      by (rule arg_cong)
    with x y show "x = y"
      by (simp add: unat_of_nat)
  qed
  then show ?thesis
    by (simp add: distinct_map)
qed

lemma init_available_set:
  "set (map (of_nat :: nat \<Rightarrow> Entity) [0..<5000]) = {entity. entity < ENTITY_MAX}"
proof (rule set_eqI)
  fix entity :: Entity
  show "entity \<in> set (map of_nat [0..<5000]) \<longleftrightarrow> entity \<in> {entity. entity < ENTITY_MAX}"
  proof
    assume "entity \<in> set (map of_nat [0..<5000])"
    then obtain n :: nat where n: "n < 5000" "entity = of_nat n"
      by auto
    then have "unat entity = n"
      by (simp add: unat_of_nat)
    with n show "entity \<in> {entity. entity < ENTITY_MAX}"
      by (simp add: entity_lt_iff)
  next
    assume "entity \<in> {entity. entity < ENTITY_MAX}"
    then have "unat entity < 5000"
      by (simp add: entity_lt_iff)
    moreover have "entity = of_nat (unat entity)"
      by simp
    ultimately show "entity \<in> set (map of_nat [0..<5000])"
      by (metis (no_types) atLeast0LessThan imageI lessThan_iff list.set_map set_upt)
  qed
qed

lemma em_inv_init: "em_inv (EntityManager_init, {})"
  unfolding em_inv_def prod.case init_available
  using init_available_distinct init_available_set
  by (simp add: EntityManager_init_def list_all_iff)

lemma em_inv_length:
  assumes "em_inv (m, live)"
  shows "length (entitiesAvailable m) + card live = 5000"
proof -
  from assms have d: "distinct (entitiesAvailable m)"
    and s: "set (entitiesAvailable m) = {entity. entity < ENTITY_MAX} - live"
    and l: "live \<subseteq> {entity. entity < ENTITY_MAX}"
    by (simp_all add: em_inv_def)
  have "length (entitiesAvailable m) = card (set (entitiesAvailable m))"
    using d by (simp add: distinct_card)
  also have "\<dots> = card {entity :: Entity. entity < ENTITY_MAX} - card live"
    unfolding s using l by (intro card_Diff_subset) (auto intro: finite_subset)
  finally have "length (entitiesAvailable m) = 5000 - card live"
    by (simp add: entity_range_card)
  moreover have "card live \<le> 5000"
    using card_mono [OF _ l] by (simp add: entity_range_card)
  ultimately show ?thesis by simp
qed


lemma em_inv_finite: "em_inv (m, live) \<Longrightarrow> finite live"
  by (rule finite_subset [where B = "{entity. entity < ENTITY_MAX}"]) (simp_all add: em_inv_def)

lemma em_inv_create:
  assumes inv: "em_inv (m, live)"
    and cr: "EntityManager_create m = Inr (entity, m')"
  shows "em_inv (m', insert entity live)"
    and "entitiesAvailable m = entity # entitiesAvailable m'"
    and "entitySignatures m' entity = 0"
    and "entity \<notin> live"
proof -
  from cr have lt: "entitiesLiving m < ENTITY_MAX"
    by (simp add: EntityManager_create_def split: if_splits)
  with cr obtain rest where q: "entitiesAvailable m = entity # rest"
    and m': "m' = m\<lparr>entitiesAvailable := rest, entitiesLiving := entitiesLiving m + 1\<rparr>"
    by (auto simp: EntityManager_create_def split: list.splits)
  from inv have d: "distinct (entitiesAvailable m)"
    and s: "set (entitiesAvailable m) = {entity. entity < ENTITY_MAX} - live"
    and l: "live \<subseteq> {entity. entity < ENTITY_MAX}"
    and c: "unat (entitiesLiving m) = card live"
    and z: "list_all (\<lambda>entity. entitySignatures m entity = 0) (entitiesAvailable m)"
    by (simp_all add: em_inv_def)
  from q s have mem: "entity \<in> {entity. entity < ENTITY_MAX} - live"
    by (metis list.set_intros(1))
  then show "entity \<notin> live" by simp
  from q m' show "entitiesAvailable m = entity # entitiesAvailable m'" by simp
  from q z m' show "entitySignatures m' entity = 0" by simp
  from lt have "unat (entitiesLiving m) < 5000"
    by (simp add: entity_lt_iff)
  then have "unat (entitiesLiving m + 1) = Suc (unat (entitiesLiving m))"
    by (simp add: unat_word_ariths)
  with c mem em_inv_finite [OF inv] have c': "unat (entitiesLiving m') = card (insert entity live)"
    by (simp add: m')
  from d q have "set rest = set (entitiesAvailable m) - {entity}"
    by auto
  with s have s': "set (entitiesAvailable m') = {entity. entity < ENTITY_MAX} - insert entity live"
    by (auto simp: m')
  from d q z mem l s' c' show "em_inv (m', insert entity live)"
    unfolding em_inv_def prod.case
    by (simp add: m')
qed

lemma em_inv_create_succeeds:
  assumes inv: "em_inv (m, live)"
    and lt: "entitiesLiving m < ENTITY_MAX"
  shows "\<exists>entity m'. EntityManager_create m = Inr (entity, m')"
proof -
  from inv have "unat (entitiesLiving m) = card live"
    by (simp add: em_inv_def)
  with lt have "card live < 5000"
    by (simp add: entity_lt_iff)
  with em_inv_length [OF inv] have "entitiesAvailable m \<noteq> []"
    by auto
  with lt show ?thesis
    by (auto simp: EntityManager_create_def split: list.splits)
qed

lemma em_inv_destroy:
  assumes inv: "em_inv (m, live)"
    and live: "entity \<in> live"
  shows "\<exists>m'. EntityManager_destroy entity m = Inr m' \<and> em_inv (m', live - {entity})
    \<and> entitiesAvailable m' = entitiesAvailable m @ [entity]
    \<and> entitiesLiving m' = entitiesLiving m - 1"
proof -
  from inv have d: "distinct (entitiesAvailable m)"
    and s: "set (entitiesAvailable m) = {entity. entity < ENTITY_MAX} - live"
    and l: "live \<subseteq> {entity. entity < ENTITY_MAX}"
    and c: "unat (entitiesLiving m) = card live"
    and z: "list_all (\<lambda>entity. entitySignatures m entity = 0) (entitiesAvailable m)"
    by (simp_all add: em_inv_def)
  from live l have lt: "entity < ENTITY_MAX"
    by auto
  define m' where "m' = m\<lparr>entitySignatures := (entitySignatures m)(entity := 0),
    entitiesAvailable := entitiesAvailable m @ [entity],
    entitiesLiving := entitiesLiving m - 1\<rparr>"
  from lt have res: "EntityManager_destroy entity m = Inr m'"
    by (simp add: EntityManager_destroy_def m'_def)
  from live em_inv_finite [OF inv] have "0 < card live"
    by (auto simp: card_gt_0_iff)
  with c have "entitiesLiving m \<noteq> 0"
    by auto
  then have "unat (entitiesLiving m - 1) = unat (entitiesLiving m) - 1"
    by (rule unat_minus_one)
  with c live em_inv_finite [OF inv] have c': "unat (entitiesLiving m') = card (live - {entity})"
    by (simp add: m'_def)
  from s live have notin: "entity \<notin> set (entitiesAvailable m)"
    by simp
  from s lt live have s': "set (entitiesAvailable m') = {entity. entity < ENTITY_MAX} - (live - {entity})"
    by (auto simp: m'_def)
  from z have z': "list_all (\<lambda>e. entitySignatures m' e = 0) (entitiesAvailable m')"
    by (simp add: m'_def list_all_iff)
  from d notin l s' c' z' have "em_inv (m', live - {entity})"
    unfolding em_inv_def prod.case
    by (auto simp: m'_def)
  with res show ?thesis
    by (simp add: m'_def)
qed

lemma em_inv_signature_set:
  assumes inv: "em_inv (m, live)"
    and live: "entity \<in> live"
  shows "\<exists>m'. EntityManager_signature_set entity signature m = Inr m' \<and> em_inv (m', live)"
proof -
  from inv have s: "set (entitiesAvailable m) = {entity. entity < ENTITY_MAX} - live"
    and l: "live \<subseteq> {entity. entity < ENTITY_MAX}"
    and z: "list_all (\<lambda>entity. entitySignatures m entity = 0) (entitiesAvailable m)"
    by (simp_all add: em_inv_def)
  from live l have lt: "entity < ENTITY_MAX"
    by auto
  from s live have notin: "entity \<notin> set (entitiesAvailable m)"
    by simp
  with z have "list_all (\<lambda>e. ((entitySignatures m)(entity := signature)) e = 0) (entitiesAvailable m)"
    by (auto simp: list_all_iff)
  with inv lt show ?thesis
    by (simp add: EntityManager_signature_set_def em_inv_def)
qed

lemma em_inv_step:
  assumes "em_inv s" and "em_step c s = Some s'"
  shows "em_inv s'"
proof (cases s)
  case (Pair m live)
  show ?thesis
  proof (cases c)
    case Create
    with assms Pair show ?thesis
      by (auto split: sum.splits dest: em_inv_create(1))
  next
    case (Destroy entity)
    with assms Pair show ?thesis
      using em_inv_destroy [of m live entity]
      by (auto split: if_splits sum.splits)
  next
    case (SetSignature entity signature)
    with assms Pair show ?thesis
      using em_inv_signature_set [of m live entity signature]
      by (auto split: if_splits sum.splits)
  qed
qed

lemma em_inv_run: "em_inv s \<Longrightarrow> em_run cs s = Some s' \<Longrightarrow> em_inv s'"
proof (induction cs arbitrary: s)
  case Nil
  then show ?case by simp
next
  case (Cons c cs)
  then show ?case
    by (auto split: option.splits dest: em_inv_step)
qed

lemma em_run_inv: "em_run cs (EntityManager_init, {}) = Some s \<Longrightarrow> em_inv s"
  using em_inv_init by (rule em_inv_run)

subsection \<open>Evaluating the first calls on a fresh manager\<close>

lemma fillAvailable_Cons:
  assumes "entity < ENTITY_MAX"
  shows "fillAvailable entity [] = entity # fillAvailable (entity + 1) []"
proof -
  from assms have lt: "unat entity < 5000"
    by (simp add: entity_lt_iff)
  then have suc: "unat (entity + 1) = Suc (unat entity)"
    by (simp add: unat_word_ariths)
  from lt suc show ?thesis
    by (simp add: fillAvailable_eq upt_conv_Cons)
qed

lemma init_create:
  "EntityManager_create EntityManager_init =
     Inr (0, \<lparr>entitiesAvailable = fillAvailable 1 [], entitiesLiving = 1,
              entitySignatures = (\<lambda>entity. 0)\<rparr>)"
  by (simp add: EntityManager_create_def EntityManager_init_def
      fillAvailable_Cons [of 0] ENTITY_MAX_def)

lemma create_fill:
  "living < ENTITY_MAX \<Longrightarrow> entity < ENTITY_MAX \<Longrightarrow>
     EntityManager_create \<lparr>entitiesAvailable = fillAvailable entity [], entitiesLiving = living,
        entitySignatures = sigs\<rparr> =
     Inr (entity, \<lparr>entitiesAvailable = fillAvailable (entity + 1) [],
        entitiesLiving = living + 1, entitySignatures = sigs\<rparr>)"
  by (simp add: EntityManager_create_def fillAvailable_Cons)

lemma init_create_2:
  "em_run [Create, Create] (EntityManager_init, {}) =
     Some (\<lparr>entitiesAvailable = fillAvailable 2 [], entitiesLiving = 2,
            entitySignatures = (\<lambda>entity. 0)\<rparr>, {1, 0})"
proof -
  have "(1 :: Entity) < ENTITY_MAX"
    by (simp add: ENTITY_MAX_def)
  then show ?thesis
    by (simp add: init_create create_fill)
qed

lemma call_keeps_zero:
  assumes "EntityManager_call c m = Inr m'"
    and "\<not> writes_signature entity c"
    and "entitySignatures m entity = 0"
  shows "entitySignatures m' entity = 0"
proof (cases c)
  case Create
  with assms show ?thesis
    by (auto simp: and_then_def EntityManager_create_def split: if_splits list.splits)
next
  case (Destroy entity')
  with assms show ?thesis
    by (auto simp: EntityManager_destroy_def split: if_splits)
next
  case (SetSignature entity' signature)
  with assms show ?thesis
    by (auto simp: EntityManager_signature_set_def split: if_splits)
qed

lemma run_keeps_zero:
  "EntityManager_run cs m = Inr m' \<Longrightarrow> list_all (\<lambda>c. \<not> writes_signature entity c) cs \<Longrightarrow>
     entitySignatures m entity = 0 \<Longrightarrow> entitySignatures m' entity = 0"
proof (induction cs arbitrary: m)
  case Nil
  then show ?case by simp
next
  case (Cons c cs)
  from Cons.prems(1) obtain m1 where c: "EntityManager_call c m = Inr m1"
    and cs: "EntityManager_run cs m1 = Inr m'"
    by (auto simp: and_then_def split: sum.splits)
  from c Cons.prems(2,3) have "entitySignatures m1 entity = 0"
    by (auto dest: call_keeps_zero)
  with cs Cons.prems(2) show ?case
    by (auto dest: Cons.IH)
qed

lemma run_append:
  "EntityManager_run (cs @ cs') m = and_then (EntityManager_run cs m) (EntityManager_run cs')"
  by (induction cs arbitrary: m) (auto simp: and_then_def split: sum.splits)

lemma create_n_take:
  "em_inv (m, live) \<Longrightarrow> n \<le> length (entitiesAvailable m) \<Longrightarrow>
     \<exists>m'. create_n n m = Inr (take n (entitiesAvailable m), m')"
proof (induction n arbitrary: m live)
  case 0
  then show ?case by simp
next
  case (Suc n)
  from Suc.prems(2) have ne: "0 < length (entitiesAvailable m)"
    by linarith
  from Suc.prems(1) have "unat (entitiesLiving m) = card live"
    by (simp add: em_inv_def)
  moreover from em_inv_length [OF Suc.prems(1)] ne have "card live < 5000"
    by linarith
  ultimately have "entitiesLiving m < ENTITY_MAX"
    by (simp add: entity_lt_iff)
  with Suc.prems(1) obtain entity m1 where cr: "EntityManager_create m = Inr (entity, m1)"
    using em_inv_create_succeeds by blast
  note step = em_inv_create [OF Suc.prems(1) cr]
  from step(2) Suc.prems(2) have "n \<le> length (entitiesAvailable m1)"
    by simp
  with step(1) obtain m' where "create_n n m1 = Inr (take n (entitiesAvailable m1), m')"
    using Suc.IH by blast
  with cr step(2) show ?case
    by simp
qed

section \<open>The entity manager: claims\<close>

text \<open>
  Claim C8. After any run of \<open>create\<close>, \<open>destroy\<close> and signature writes from a fresh
  manager (the last two on live handles), the live handles are at most \<open>ENTITY_MAX\<close> and
  the counter \<open>entitiesLiving\<close> is their number; \<open>create\<close> fails with
  \<open>CapacityExceeded\<close> exactly when that number is \<open>ENTITY_MAX\<close>; and destroying a live
  handle and creating again succeeds and returns a handle whose signature reads all-zero,
  whatever signature the destroyed handle carried.
\<close>

theorem create_bounded_and_recycled_signature_zero:
  "em_run cs (EntityManager_init, {}) = Some (m, live) \<Longrightarrow>
     card live \<le> unat ENTITY_MAX \<and>
     unat (entitiesLiving m) = card live \<and>
     ((EntityManager_create m = Inl CapacityExceeded) = (card live = unat ENTITY_MAX)) \<and>
     (entity \<in> live \<longrightarrow>
        (\<exists>m1 entity' m2.
           EntityManager_destroy entity m = Inr m1 \<and>
           EntityManager_create m1 = Inr (entity', m2) \<and>
           EntityManager_signature entity' m2 = Inr 0))"
proof -
  assume run: "em_run cs (EntityManager_init, {}) = Some (m, live)"
  then have inv: "em_inv (m, live)"
    by (rule em_run_inv)
  then have c: "unat (entitiesLiving m) = card live"
    by (simp add: em_inv_def)
  from em_inv_length [OF inv] have bound: "card live \<le> unat ENTITY_MAX"
    by (simp add: unat_ENTITY_MAX)
  have full: "(EntityManager_create m = Inl CapacityExceeded) = (card live = unat ENTITY_MAX)"
  proof (cases "entitiesLiving m < ENTITY_MAX")
    case True
    with em_inv_create_succeeds [OF inv] c show ?thesis
      by (auto simp: entity_lt_iff unat_ENTITY_MAX)
  next
    case False
    with c bound show ?thesis
      by (simp add: EntityManager_create_def entity_lt_iff unat_ENTITY_MAX)
  qed
  have recycle: "\<exists>m1 entity' m2.
           EntityManager_destroy entity m = Inr m1 \<and>
           EntityManager_create m1 = Inr (entity', m2) \<and>
           EntityManager_signature entity' m2 = Inr 0" if live: "entity \<in> live"
  proof -
    from em_inv_destroy [OF inv live] obtain m1
      where d: "EntityManager_destroy entity m = Inr m1"
        and inv1: "em_inv (m1, live - {entity})"
      by blast
    from inv1 have c1: "unat (entitiesLiving m1) = card (live - {entity})"
      by (simp add: em_inv_def)
    from live em_inv_finite [OF inv] have "card (live - {entity}) < card live"
      by (intro card_Diff1_less)
    with c1 bound have "entitiesLiving m1 < ENTITY_MAX"
      by (simp add: entity_lt_iff unat_ENTITY_MAX)
    with inv1 obtain entity' m2 where cr: "EntityManager_create m1 = Inr (entity', m2)"
      using em_inv_create_succeeds by blast
    note step = em_inv_create [OF inv1 cr]
    from step(1) have "entity' < ENTITY_MAX"
      by (auto simp: em_inv_def)
    with step(3) have "EntityManager_signature entity' m2 = Inr 0"
      by (simp add: EntityManager_signature_def)
    with d cr show ?thesis
      by blast
  qed
  from bound c full recycle show ?thesis
    by blast
qed

text \<open>
  The theorem at the run \<open>create; signature(0, 5)\<close>: handle 0 is live with signature 5,
  and after \<open>destroy(0)\<close> the next \<open>create\<close> returns a handle that reads zero.
\<close>

theorem create_bounded_and_recycled_signature_zero_witness:
  "em_run [Create, SetSignature 0 5] (EntityManager_init, {}) =
     Some (\<lparr>entitiesAvailable = fillAvailable 1 [], entitiesLiving = 1,
            entitySignatures = (\<lambda>entity. 0)(0 := 5)\<rparr>, {0}) \<and>
   card {0 :: Entity} \<le> unat ENTITY_MAX \<and>
   (\<exists>m1 entity' m2.
      EntityManager_destroy 0 \<lparr>entitiesAvailable = fillAvailable 1 [], entitiesLiving = 1,
            entitySignatures = (\<lambda>entity. 0)(0 := 5)\<rparr> = Inr m1 \<and>
      EntityManager_create m1 = Inr (entity', m2) \<and>
      EntityManager_signature entity' m2 = Inr 0)"
proof -
  have run: "em_run [Create, SetSignature 0 5] (EntityManager_init, {}) =
     Some (\<lparr>entitiesAvailable = fillAvailable 1 [], entitiesLiving = 1,
            entitySignatures = (\<lambda>entity. 0)(0 := 5)\<rparr>, {0})"
    by (simp add: init_create EntityManager_signature_set_def ENTITY_MAX_def)
  from create_bounded_and_recycled_signature_zero [OF run, of 0] run show ?thesis
    by simp
qed

text \<open>
  Claim C9. Handles are issued first in, first out. The first \<open>n \<le> ENTITY_MAX\<close> calls of
  \<open>create\<close> on a fresh manager return \<open>0, 1, ..., n - 1\<close> in this order. In any state of
  a run, \<open>destroy\<close> of a live handle appends it at the back of the available queue, and the
  following calls of \<open>create\<close> return every handle that was available before, in the
  order of the queue, and the destroyed handle only after all of them.
\<close>

theorem handles_issued_fifo:
  "(n \<le> unat ENTITY_MAX \<longrightarrow>
      (\<exists>m'. create_n n EntityManager_init = Inr (map of_nat [0..<n], m'))) \<and>
   (em_run cs (EntityManager_init, {}) = Some (m, live) \<and> entity \<in> live \<longrightarrow>
      (\<exists>m1 m2.
         EntityManager_destroy entity m = Inr m1 \<and>
         entitiesAvailable m1 = entitiesAvailable m @ [entity] \<and>
         create_n (Suc (length (entitiesAvailable m))) m1 =
           Inr (entitiesAvailable m @ [entity], m2)))"
proof (intro conjI impI)
  assume n: "n \<le> unat ENTITY_MAX"
  then have "n \<le> length (entitiesAvailable EntityManager_init)"
    by (simp add: init_available unat_ENTITY_MAX)
  with em_inv_init obtain m'
    where "create_n n EntityManager_init = Inr (take n (entitiesAvailable EntityManager_init), m')"
    using create_n_take by blast
  moreover from n have "take n (entitiesAvailable EntityManager_init) = map of_nat [0..<n]"
    by (simp add: init_available unat_ENTITY_MAX take_map)
  ultimately show "\<exists>m'. create_n n EntityManager_init = Inr (map of_nat [0..<n], m')"
    by auto
next
  assume "em_run cs (EntityManager_init, {}) = Some (m, live) \<and> entity \<in> live"
  then have inv: "em_inv (m, live)" and live: "entity \<in> live"
    by (auto dest: em_run_inv)
  from em_inv_destroy [OF inv live] obtain m1
    where d: "EntityManager_destroy entity m = Inr m1"
      and inv1: "em_inv (m1, live - {entity})"
      and q1: "entitiesAvailable m1 = entitiesAvailable m @ [entity]"
    by blast
  from q1 have "Suc (length (entitiesAvailable m)) \<le> length (entitiesAvailable m1)"
    by simp
  with inv1 obtain m2 where "create_n (Suc (length (entitiesAvailable m))) m1 =
      Inr (take (Suc (length (entitiesAvailable m))) (entitiesAvailable m1), m2)"
    using create_n_take by blast
  with q1 have "create_n (Suc (length (entitiesAvailable m))) m1 =
      Inr (entitiesAvailable m @ [entity], m2)"
    by simp
  with d q1 show "\<exists>m1 m2.
         EntityManager_destroy entity m = Inr m1 \<and>
         entitiesAvailable m1 = entitiesAvailable m @ [entity] \<and>
         create_n (Suc (length (entitiesAvailable m))) m1 =
           Inr (entitiesAvailable m @ [entity], m2)"
    by blast
qed

text \<open>
  The theorem at \<open>n = 3\<close> and at the state after two calls of \<open>create\<close>, where handle 0 is
  destroyed.
\<close>

theorem handles_issued_fifo_witness:
  "(3 :: nat) \<le> unat ENTITY_MAX \<and>
   (\<exists>m'. create_n 3 EntityManager_init = Inr ([0, 1, 2], m')) \<and>
   em_run [Create, Create] (EntityManager_init, {}) =
     Some (\<lparr>entitiesAvailable = fillAvailable 2 [], entitiesLiving = 2,
            entitySignatures = (\<lambda>entity. 0)\<rparr>, {1, 0}) \<and>
   (0 :: Entity) \<in> {1, 0} \<and>
   (\<exists>m1 m2.
      EntityManager_destroy 0 \<lparr>entitiesAvailable = fillAvailable 2 [], entitiesLiving = 2,
            entitySignatures = (\<lambda>entity. 0)\<rparr> = Inr m1 \<and>
      entitiesAvailable m1 = fillAvailable 2 [] @ [0] \<and>
      create_n (Suc (length (fillAvailable 2 []))) m1 = Inr (fillAvailable 2 [] @ [0], m2))"
proof -
  have three: "(3 :: nat) \<le> unat ENTITY_MAX"
    by (simp add: ENTITY_MAX_def)
  have upt3: "[0..<3] = [0, 1, 2 :: nat]"
    by (simp add: upt_rec)
  from three init_create_2 upt3
    handles_issued_fifo [of 3 "[Create, Create]"
      "\<lparr>entitiesAvailable = fillAvailable 2 [], entitiesLiving = 2,
        entitySignatures = (\<lambda>entity. 0)\<rparr>" "{1, 0}" 0]
  show ?thesis
    by (simp del: create_n.simps)
qed

text \<open>
  Claim C10, as stated, fails: the signature write checks the range only, as the read
  does, so it accepts a destroyed handle. After \<open>create\<close> returns 0, \<open>destroy(0)\<close> and
  \<open>signature(0, 5)\<close> both succeed, and handle 0, destroyed and not re-created, reads 5.
\<close>

theorem signature_write_after_destroy_counterexample:
  "fst (projr (EntityManager_create EntityManager_init)) = 0 \<and>
   \<not> isl (EntityManager_run [Create, Destroy 0, SetSignature 0 5] EntityManager_init) \<and>
   EntityManager_signature 0
     (projr (EntityManager_run [Create, Destroy 0, SetSignature 0 5] EntityManager_init)) = Inr 5"
  by (simp add: and_then_def init_create EntityManager_destroy_def
      EntityManager_signature_set_def EntityManager_signature_def ENTITY_MAX_def)

text \<open>
  Claim C10, amended. The signature read fails exactly when the handle is out of range,
  whatever the state; liveness is not looked at. In any run of calls, from any state, a
  handle that was destroyed reads all-zero as long as no signature write has addressed it
  since that \<open>destroy\<close>, re-created or not; and in any run from a fresh manager an in-range
  handle that no signature write has addressed, created or not, reads all-zero. The runs
  are those the code accepts: nothing is assumed of the handles the calls address.
\<close>

theorem signature_read_zero_until_written:
  "((EntityManager_signature entity m0 = Inl InvalidEntity) = (\<not> entity < ENTITY_MAX)) \<and>
   (EntityManager_run (before @ Destroy entity # after) m0 = Inr m \<and>
    list_all (\<lambda>c. \<not> writes_signature entity c) after \<longrightarrow>
      EntityManager_signature entity m = Inr 0) \<and>
   (EntityManager_run cs EntityManager_init = Inr m' \<and> entity < ENTITY_MAX \<and>
    list_all (\<lambda>c. \<not> writes_signature entity c) cs \<longrightarrow>
      EntityManager_signature entity m' = Inr 0)"
proof (intro conjI impI)
  show "(EntityManager_signature entity m0 = Inl InvalidEntity) = (\<not> entity < ENTITY_MAX)"
    by (simp add: EntityManager_signature_def)
next
  assume a: "EntityManager_run (before @ Destroy entity # after) m0 = Inr m \<and>
    list_all (\<lambda>c. \<not> writes_signature entity c) after"
  then obtain m1 m2 where "EntityManager_run before m0 = Inr m1"
    and d: "EntityManager_destroy entity m1 = Inr m2"
    and r: "EntityManager_run after m2 = Inr m"
    by (auto simp: run_append and_then_def split: sum.splits)
  from d have lt: "entity < ENTITY_MAX" and "entitySignatures m2 entity = 0"
    by (auto simp: EntityManager_destroy_def split: if_splits)
  with r a have "entitySignatures m entity = 0"
    by (auto dest: run_keeps_zero)
  with lt show "EntityManager_signature entity m = Inr 0"
    by (simp add: EntityManager_signature_def)
next
  assume a: "EntityManager_run cs EntityManager_init = Inr m' \<and> entity < ENTITY_MAX \<and>
    list_all (\<lambda>c. \<not> writes_signature entity c) cs"
  have "entitySignatures EntityManager_init entity = 0"
    by (simp add: EntityManager_init_def)
  with a have "entitySignatures m' entity = 0"
    by (auto dest: run_keeps_zero)
  with a show "EntityManager_signature entity m' = Inr 0"
    by (simp add: EntityManager_signature_def)
qed

text \<open>
  The theorem at handle 0, created, given signature 5 and destroyed, with a write to
  handle 1 after the \<open>destroy\<close>; and at handle 3 of the manager after one \<open>create\<close>,
  never created and never written.
\<close>

theorem signature_read_zero_until_written_witness:
  "EntityManager_run ([Create, SetSignature 0 5] @ Destroy 0 # [SetSignature 1 9])
       EntityManager_init =
     Inr \<lparr>entitiesAvailable = fillAvailable 1 [] @ [0], entitiesLiving = 0,
          entitySignatures = (\<lambda>entity. 0)(0 := 5, 0 := 0, 1 := 9)\<rparr> \<and>
   list_all (\<lambda>c. \<not> writes_signature 0 c) [SetSignature 1 9] \<and>
   EntityManager_signature 0 \<lparr>entitiesAvailable = fillAvailable 1 [] @ [0], entitiesLiving = 0,
          entitySignatures = (\<lambda>entity. 0)(0 := 5, 0 := 0, 1 := 9)\<rparr> = Inr 0 \<and>
   EntityManager_run [Create] EntityManager_init =
     Inr \<lparr>entitiesAvailable = fillAvailable 1 [], entitiesLiving = 1,
          entitySignatures = (\<lambda>entity. 0)\<rparr> \<and>
   (3 :: Entity) < ENTITY_MAX \<and>
   EntityManager_signature 3 \<lparr>entitiesAvailable = fillAvailable 1 [], entitiesLiving = 1,
          entitySignatures = (\<lambda>entity. 0)\<rparr> = Inr 0"
proof -
  have run: "EntityManager_run ([Create, SetSignature 0 5] @ Destroy 0 # [SetSignature 1 9])
       EntityManager_init =
     Inr \<lparr>entitiesAvailable = fillAvailable 1 [] @ [0], entitiesLiving = 0,
          entitySignatures = (\<lambda>entity. 0)(0 := 5, 0 := 0, 1 := 9)\<rparr>"
    by (simp add: and_then_def init_create EntityManager_destroy_def
        EntityManager_signature_set_def ENTITY_MAX_def)
  have quiet: "list_all (\<lambda>c. \<not> writes_signature 0 c) [SetSignature 1 9]"
    by simp
  have one: "EntityManager_run [Create] EntityManager_init =
     Inr \<lparr>entitiesAvailable = fillAvailable 1 [], entitiesLiving = 1,
          entitySignatures = (\<lambda>entity. 0)\<rparr>"
    by (simp add: and_then_def init_create)
  have lt: "(3 :: Entity) < ENTITY_MAX"
    by (simp add: ENTITY_MAX_def)
  have never: "list_all (\<lambda>c. \<not> writes_signature 3 c) [Create]"
    by simp
  from run quiet
    signature_read_zero_until_written [of 0 EntityManager_init "[Create, SetSignature 0 5]"
      "[SetSignature 1 9]" "\<lparr>entitiesAvailable = fillAvailable 1 [] @ [0], entitiesLiving = 0,
          entitySignatures = (\<lambda>entity. 0)(0 := 5, 0 := 0, 1 := 9)\<rparr>"]
  have dead: "EntityManager_signature 0 \<lparr>entitiesAvailable = fillAvailable 1 [] @ [0],
          entitiesLiving = 0,
          entitySignatures = (\<lambda>entity. 0)(0 := 5, 0 := 0, 1 := 9)\<rparr> = Inr 0"
    by blast
  from one lt never
    signature_read_zero_until_written [of 3 EntityManager_init _ _ _ "[Create]"
      "\<lparr>entitiesAvailable = fillAvailable 1 [], entitiesLiving = 1,
          entitySignatures = (\<lambda>entity. 0)\<rparr>"]
  have fresh: "EntityManager_signature 3 \<lparr>entitiesAvailable = fillAvailable 1 [],
          entitiesLiving = 1, entitySignatures = (\<lambda>entity. 0)\<rparr> = Inr 0"
    by blast
  from run quiet dead one lt fresh show ?thesis
    by blast
qed

text \<open>
  Claim C5, as stated, fails: \<open>destroy\<close> does not fail on a handle that is not live.
  Handle 7 of a fresh manager was never created and \<open>destroy(7)\<close> succeeds; and after
  \<open>create\<close> returns 0, \<open>destroy(0)\<close> succeeds twice in a row.
\<close>

theorem destroy_not_live_counterexample:
  "EntityManager_destroy 7 EntityManager_init \<noteq> Inl InvalidEntity \<and>
   fst (projr (EntityManager_create EntityManager_init)) = 0 \<and>
   \<not> isl (EntityManager_destroy 0 (snd (projr (EntityManager_create EntityManager_init)))) \<and>
   \<not> isl (EntityManager_destroy 0 (projr (EntityManager_destroy 0
       (snd (projr (EntityManager_create EntityManager_init))))))"
  by (simp add: init_create EntityManager_destroy_def ENTITY_MAX_def)

text \<open>
  Claim C5, amended. \<open>destroy\<close> fails, with \<open>InvalidEntity\<close>, exactly when the handle is
  not below \<open>ENTITY_MAX\<close>; the check comes before every update, so the failing call
  changes nothing. Every handle in range is accepted, live or not: its signature is
  reset, it is appended to the available queue and the counter is decremented.
\<close>

theorem destroy_fails_exactly_out_of_range:
  "((EntityManager_destroy entity m = Inl InvalidEntity) = (\<not> entity < ENTITY_MAX)) \<and>
   (isl (EntityManager_destroy entity m) = (\<not> entity < ENTITY_MAX)) \<and>
   (entity < ENTITY_MAX \<longrightarrow>
      (\<exists>m'. EntityManager_destroy entity m = Inr m' \<and>
         entitySignatures m' = (entitySignatures m)(entity := 0) \<and>
         entitiesAvailable m' = entitiesAvailable m @ [entity] \<and>
         entitiesLiving m' = entitiesLiving m - 1))"
  by (simp add: EntityManager_destroy_def)

text \<open>The theorem at the handles 5000 (out of range) and 4999 (in range) of a fresh manager.\<close>

theorem destroy_fails_exactly_out_of_range_witness:
  "EntityManager_destroy 5000 EntityManager_init = Inl InvalidEntity \<and>
   (4999 :: Entity) < ENTITY_MAX \<and>
   (\<exists>m'. EntityManager_destroy 4999 EntityManager_init = Inr m' \<and>
      entitiesAvailable m' = entitiesAvailable EntityManager_init @ [4999] \<and>
      entitiesLiving m' = entitiesLiving EntityManager_init - 1)"
proof -
  have lt: "(4999 :: Entity) < ENTITY_MAX" and ge: "\<not> (5000 :: Entity) < ENTITY_MAX"
    by (simp_all add: ENTITY_MAX_def)
  from lt ge destroy_fails_exactly_out_of_range [of 5000 EntityManager_init]
    destroy_fails_exactly_out_of_range [of 4999 EntityManager_init]
  show ?thesis
    by auto
qed


section \<open>Component containers: the invariant\<close>

lemma word_less_pred_iff:
  fixes x :: size_t
  assumes "x \<noteq> 0"
  shows "(i < x \<and> i \<noteq> x - 1) = (i < x - 1)"
proof -
  from assms have "unat (x - 1) = unat x - 1"
    by (rule unat_minus_one)
  moreover from assms have "0 < unat x"
    by (simp add: unat_gt_0)
  ultimately show ?thesis
    by (auto simp: word_less_nat_alt word_unat_eq_iff)
qed

lemma word_less_succ_iff:
  fixes x :: size_t
  assumes "x < ENTITY_MAX"
  shows "(i < x + 1) = (i < x \<or> i = x)"
proof -
  from assms have "unat x < 5000"
    by (simp add: entity_lt_iff)
  then have "unat (x + 1) = Suc (unat x)"
    by (simp add: unat_word_ariths)
  then show ?thesis
    by (auto simp: word_less_nat_alt word_unat_eq_iff)
qed

lemma dense_init: "dense (ComponentContainer_init d)"
  by (simp add: dense_def ComponentContainer_init_def)

lemma dense_insert:
  assumes inv: "dense c"
    and ins: "ComponentContainer_insert entity component c = Inr c'"
  shows "dense c'"
proof -
  from ins have new: "mapEntityToIndex c entity = None"
    and lt: "size_c c < ENTITY_MAX"
    and c': "c' = c\<lparr>mapEntityToIndex := (mapEntityToIndex c)(entity \<mapsto> size_c c),
                    mapIndexToEntity := (mapIndexToEntity c)(size_c c \<mapsto> entity),
                    components := (components c)(size_c c := component),
                    size_c := size_c c + 1\<rparr>"
    by (auto simp: ComponentContainer_insert_def Let_def split: if_splits)
  from inv have d: "dom (mapIndexToEntity c) = {index. index < size_c c}"
    and i: "\<And>entity index.
      (mapEntityToIndex c entity = Some index) = (mapIndexToEntity c index = Some entity)"
    by (simp_all add: dense_def)
  from lt have "unat (size_c c) < 5000"
    by (simp add: entity_lt_iff)
  then have "unat (size_c c + 1) = Suc (unat (size_c c))"
    by (simp add: unat_word_ariths)
  with lt have le: "size_c c + 1 \<le> ENTITY_MAX"
    by (simp add: word_le_nat_alt word_less_nat_alt)
  from d have free: "mapIndexToEntity c (size_c c) = None"
    by (auto simp: dom_def)
  have d': "dom (mapIndexToEntity c') = {index. index < size_c c'}"
    using d by (auto simp: c' word_less_succ_iff [OF lt])
  have i': "(mapEntityToIndex c' e = Some index) = (mapIndexToEntity c' index = Some e)"
    for e index
    using i [of e index] new free by (auto simp: c')
  from le d' i' show ?thesis
    unfolding dense_def by (simp add: c')
qed

lemma dense_get:
  assumes inv: "dense c" and m: "mapEntityToIndex c entity = Some index"
  shows "ComponentContainer_get entity c = Inr (components c index)"
proof -
  from inv m have "mapIndexToEntity c index = Some entity"
    by (simp add: dense_def)
  then have "index \<in> dom (mapIndexToEntity c)"
    by auto
  with inv have "index < size_c c" and "size_c c \<le> ENTITY_MAX"
    by (simp_all add: dense_def)
  then have "index < ENTITY_MAX"
    by simp
  with m show ?thesis
    by (simp add: ComponentContainer_get_def)
qed

lemma remove_mapped:
  assumes inv: "dense c"
    and mapped: "mapEntityToIndex c entity = Some indexRemoved"
  obtains entityLast where
    "mapIndexToEntity c (size_c c - 1) = Some entityLast"
    "mapEntityToIndex c entityLast = Some (size_c c - 1)"
    "mapIndexToEntity c indexRemoved = Some entity"
    "size_c c \<noteq> 0"
    "size_c c - 1 < ENTITY_MAX"
    "ComponentContainer_remove entity c =
       Inr (c\<lparr>components := (components c)(indexRemoved := components c (size_c c - 1)),
           mapEntityToIndex :=
             ((mapEntityToIndex c)(entityLast \<mapsto> indexRemoved))(entity := None),
           mapIndexToEntity :=
             ((mapIndexToEntity c)(indexRemoved \<mapsto> entityLast))(size_c c - 1 := None),
           size_c := size_c c - 1\<rparr>)"
proof -
  define indexLast where "indexLast = size_c c - 1"
  from inv have le: "size_c c \<le> ENTITY_MAX"
    and d: "dom (mapIndexToEntity c) = {index. index < size_c c}"
    and i: "\<And>entity index.
      (mapEntityToIndex c entity = Some index) = (mapIndexToEntity c index = Some entity)"
    by (simp_all add: dense_def)
  from mapped i have slot: "mapIndexToEntity c indexRemoved = Some entity"
    by simp
  with d have r_lt: "indexRemoved < size_c c"
    by (auto simp: dom_def)
  then have nz: "size_c c \<noteq> 0"
    by auto
  then have "unat indexLast = unat (size_c c) - 1" and "0 < unat (size_c c)"
    by (simp_all add: indexLast_def unat_minus_one unat_gt_0)
  then have l_lt: "indexLast < size_c c"
    by (simp add: word_less_nat_alt)
  with d obtain entityLast where last: "mapIndexToEntity c indexLast = Some entityLast"
    by (auto simp: dom_def)
  with i have last': "mapEntityToIndex c entityLast = Some indexLast"
    by simp
  from r_lt l_lt le have bounds: "indexRemoved < ENTITY_MAX" "indexLast < ENTITY_MAX"
    by simp_all
  from mapped bounds last have "ComponentContainer_remove entity c =
       Inr (c\<lparr>components := (components c)(indexRemoved := components c indexLast),
           mapEntityToIndex :=
             ((mapEntityToIndex c)(entityLast \<mapsto> indexRemoved))(entity := None),
           mapIndexToEntity :=
             ((mapIndexToEntity c)(indexRemoved \<mapsto> entityLast))(indexLast := None),
           size_c := indexLast\<rparr>)"
    by (simp add: ComponentContainer_remove_def Let_def indexLast_def)
  with last last' slot nz bounds(2) show ?thesis
    unfolding indexLast_def by (rule that)
qed

lemma dense_remove:
  assumes inv: "dense c"
    and rem: "ComponentContainer_remove entity c = Inr c'"
  shows "dense c'"
proof -
  from rem obtain indexRemoved where mapped: "mapEntityToIndex c entity = Some indexRemoved"
    by (auto simp: ComponentContainer_remove_def split: option.splits)
  define indexLast where "indexLast = size_c c - 1"
  from inv have le: "size_c c \<le> ENTITY_MAX"
    and d: "dom (mapIndexToEntity c) = {index. index < size_c c}"
    and i: "\<And>entity index.
      (mapEntityToIndex c entity = Some index) = (mapIndexToEntity c index = Some entity)"
    by (simp_all add: dense_def)
  from remove_mapped [OF inv mapped] obtain entityLast
    where last: "mapIndexToEntity c indexLast = Some entityLast"
      and last': "mapEntityToIndex c entityLast = Some indexLast"
      and slot: "mapIndexToEntity c indexRemoved = Some entity"
      and nz: "size_c c \<noteq> 0"
      and l_max: "indexLast < ENTITY_MAX"
      and res: "ComponentContainer_remove entity c =
       Inr (c\<lparr>components := (components c)(indexRemoved := components c indexLast),
           mapEntityToIndex :=
             ((mapEntityToIndex c)(entityLast \<mapsto> indexRemoved))(entity := None),
           mapIndexToEntity :=
             ((mapIndexToEntity c)(indexRemoved \<mapsto> entityLast))(indexLast := None),
           size_c := indexLast\<rparr>)"
    unfolding indexLast_def by blast
  from rem res have c'_def: "c' = c\<lparr>components := (components c)(indexRemoved := components c indexLast),
      mapEntityToIndex := ((mapEntityToIndex c)(entityLast \<mapsto> indexRemoved))(entity := None),
      mapIndexToEntity := ((mapIndexToEntity c)(indexRemoved \<mapsto> entityLast))(indexLast := None),
      size_c := indexLast\<rparr>"
    by simp
  from slot d have r_lt: "indexRemoved < size_c c"
    by (auto simp: dom_def)
  note pred = word_less_pred_iff [OF nz]
  have same: "entityLast = entity \<longleftrightarrow> indexRemoved = indexLast"
    using mapped last' slot last by auto
  from l_max have le': "size_c c' \<le> ENTITY_MAX"
    by (simp add: c'_def)
  have d': "dom (mapIndexToEntity c') = {index. index < size_c c'}"
  proof -
    have "dom (mapIndexToEntity c') = (dom (mapIndexToEntity c) \<union> {indexRemoved}) - {indexLast}"
      by (auto simp: c'_def)
    also have "\<dots> = {index. index < size_c c} - {indexLast}"
      using d r_lt by auto
    also have "\<dots> = {index. index < size_c c'}"
      using pred by (auto simp: c'_def indexLast_def)
    finally show ?thesis .
  qed
  have i': "(mapEntityToIndex c' e = Some index) = (mapIndexToEntity c' index = Some e)"
    for e index
  proof (cases "e = entity")
    case True
    have "mapIndexToEntity c' index \<noteq> Some entity"
    proof
      assume a: "mapIndexToEntity c' index = Some entity"
      then have ne: "index \<noteq> indexLast"
        by (auto simp: c'_def split: if_splits)
      show False
      proof (cases "index = indexRemoved")
        case True
        with a ne have "entityLast = entity"
          by (simp add: c'_def)
        with same True ne show False
          by simp
      next
        case False
        with a ne have "mapIndexToEntity c index = Some entity"
          by (simp add: c'_def)
        with i mapped have "index = indexRemoved"
          by (metis option.inject)
        with False show False
          by simp
      qed
    qed
    with True show ?thesis
      by (simp add: c'_def)
  next
    case ne: False
    show ?thesis
    proof (cases "e = entityLast")
      case True
      with ne same have rl: "indexRemoved \<noteq> indexLast"
        by simp
      have "(mapIndexToEntity c' index = Some entityLast) = (index = indexRemoved)"
      proof
        assume a: "mapIndexToEntity c' index = Some entityLast"
        show "index = indexRemoved"
        proof (rule ccontr)
          assume n: "index \<noteq> indexRemoved"
          from a have "index \<noteq> indexLast"
            by (auto simp: c'_def split: if_splits)
          moreover from this a n have "mapIndexToEntity c index = Some entityLast"
            by (simp add: c'_def)
          with i last' have "index = indexLast"
            by (metis option.inject)
          ultimately show False
            by simp
        qed
      next
        assume "index = indexRemoved"
        with rl show "mapIndexToEntity c' index = Some entityLast"
          by (simp add: c'_def)
      qed
      with True ne show ?thesis
        by (auto simp: c'_def)
    next
      case False
      with ne have e2i: "mapEntityToIndex c' e = mapEntityToIndex c e"
        by (simp add: c'_def)
      show ?thesis
      proof (cases "index = indexLast \<or> index = indexRemoved")
        case True
        then have "mapEntityToIndex c e \<noteq> Some index"
          using i [of e index] last slot ne False by auto
        moreover from True False have "mapIndexToEntity c' index \<noteq> Some e"
          by (auto simp: c'_def)
        ultimately show ?thesis
          using e2i by simp
      next
        case False
        then have "mapIndexToEntity c' index = mapIndexToEntity c index"
          by (simp add: c'_def)
        with e2i i [of e index] show ?thesis
          by simp
      qed
    qed
  qed
  from le' d' i' show ?thesis
    unfolding dense_def by blast
qed

lemma dense_destroyed:
  "dense c \<Longrightarrow> ComponentContainer_destroyed entity c = Inr c' \<Longrightarrow> dense c'"
  by (auto simp: ComponentContainer_destroyed_def dest: dense_remove split: if_splits)

lemma dense_call:
  "dense c \<Longrightarrow> ComponentContainer_call x c = Inr c' \<Longrightarrow> dense c'"
  by (cases x) (auto dest: dense_insert dense_remove dense_destroyed)

lemma dense_run:
  "dense c \<Longrightarrow> ComponentContainer_run xs c = Inr c' \<Longrightarrow> dense c'"
proof (induction xs arbitrary: c)
  case Nil
  then show ?case by simp
next
  case (Cons x xs)
  then show ?case
    by (auto simp: and_then_def split: sum.splits dest: dense_call)
qed

lemma dense_reached:
  "ComponentContainer_run xs (ComponentContainer_init d) = Inr c \<Longrightarrow> dense c"
  using dense_init by (rule dense_run)

section \<open>Component containers: claims\<close>

text \<open>
  Claim C6. For a container that satisfies the invariant and an entity it maps, \<open>remove\<close>
  succeeds and leaves a container that satisfies the invariant again: the occupied slots
  are exactly the indices below the new \<open>size_\<close>, which is one less, and the two maps are
  inverse to each other. Only the removed entity leaves the map, and every other entity
  reads the value it read before. The entity of the last slot, when it is not the removed
  one, is mapped to the vacated slot, which holds its value. The removed entity may be the
  one of the last slot: no case is excluded.
\<close>

theorem remove_keeps_dense:
  assumes inv: "dense c"
    and mapped: "mapEntityToIndex c entity = Some indexRemoved"
  shows "\<exists>c'. ComponentContainer_remove entity c = Inr c' \<and>
           dense c' \<and>
           size_c c' = size_c c - 1 \<and>
           dom (mapIndexToEntity c') = {index. index < size_c c'} \<and>
           dom (mapEntityToIndex c') = dom (mapEntityToIndex c) - {entity} \<and>
           (\<forall>other. other \<noteq> entity \<and> mapEntityToIndex c other \<noteq> None \<longrightarrow>
              ComponentContainer_get other c' = ComponentContainer_get other c \<and>
              \<not> isl (ComponentContainer_get other c)) \<and>
           (\<forall>entityLast.
              mapIndexToEntity c (size_c c - 1) = Some entityLast \<and> entityLast \<noteq> entity \<longrightarrow>
                mapEntityToIndex c' entityLast = Some indexRemoved \<and>
                components c' indexRemoved = components c (size_c c - 1))"
proof -
  define indexLast where "indexLast = size_c c - 1"
  from inv have i: "\<And>entity index.
      (mapEntityToIndex c entity = Some index) = (mapIndexToEntity c index = Some entity)"
    by (simp add: dense_def)
  from remove_mapped [OF inv mapped] obtain entityLast
    where last: "mapIndexToEntity c indexLast = Some entityLast"
      and last': "mapEntityToIndex c entityLast = Some indexLast"
      and res: "ComponentContainer_remove entity c =
       Inr (c\<lparr>components := (components c)(indexRemoved := components c indexLast),
           mapEntityToIndex :=
             ((mapEntityToIndex c)(entityLast \<mapsto> indexRemoved))(entity := None),
           mapIndexToEntity :=
             ((mapIndexToEntity c)(indexRemoved \<mapsto> entityLast))(indexLast := None),
           size_c := indexLast\<rparr>)"
    unfolding indexLast_def by blast
  define c' where "c' = c\<lparr>components := (components c)(indexRemoved := components c indexLast),
      mapEntityToIndex := ((mapEntityToIndex c)(entityLast \<mapsto> indexRemoved))(entity := None),
      mapIndexToEntity := ((mapIndexToEntity c)(indexRemoved \<mapsto> entityLast))(indexLast := None),
      size_c := indexLast\<rparr>"
  from res have res: "ComponentContainer_remove entity c = Inr c'"
    by (simp add: c'_def)
  with inv have inv': "dense c'"
    by (rule dense_remove)
  then have d': "dom (mapIndexToEntity c') = {index. index < size_c c'}"
    by (simp add: dense_def)
  have size': "size_c c' = size_c c - 1"
    by (simp add: c'_def indexLast_def)
  have dom': "dom (mapEntityToIndex c') = dom (mapEntityToIndex c) - {entity}"
    using last' by (auto simp: c'_def)
  have keep: "ComponentContainer_get other c' = ComponentContainer_get other c \<and>
      \<not> isl (ComponentContainer_get other c)"
    if o: "other \<noteq> entity \<and> mapEntityToIndex c other \<noteq> None" for other
  proof -
    from o obtain index where m: "mapEntityToIndex c other = Some index"
      by auto
    note g = dense_get [OF inv m]
    show ?thesis
    proof (cases "other = entityLast")
      case True
      with m last' have "index = indexLast"
        by simp
      moreover from True o have "mapEntityToIndex c' other = Some indexRemoved"
        by (simp add: c'_def)
      then have "ComponentContainer_get other c' = Inr (components c' indexRemoved)"
        by (rule dense_get [OF inv'])
      ultimately show ?thesis
        using g by (simp add: c'_def)
    next
      case False
      with o m have m': "mapEntityToIndex c' other = Some index"
        by (simp add: c'_def)
      from m o mapped i have "index \<noteq> indexRemoved"
        by (metis option.inject)
      with dense_get [OF inv' m'] g show ?thesis
        by (simp add: c'_def)
    qed
  qed
  have moved: "mapEntityToIndex c' el = Some indexRemoved \<and>
      components c' indexRemoved = components c (size_c c - 1)"
    if "mapIndexToEntity c (size_c c - 1) = Some el \<and> el \<noteq> entity" for el
    using that last by (simp add: c'_def indexLast_def)
  from res inv' size' d' dom' keep moved show ?thesis
    by blast
qed

text \<open>
  The theorem at the container that three calls of \<open>insert\<close> leave, with the entities
  11, 12 and 13 in the slots 0, 1 and 2: for the removal of 11 (entity 13 moves to slot 0)
  and for the removal of 13 (the last slot).
\<close>

theorem remove_keeps_dense_witness:
  "let c = \<lparr>components = (\<lambda>index. 0 :: int)(0 := 10, 1 := 20, 2 := 30),
             mapEntityToIndex = [11 \<mapsto> 0, 12 \<mapsto> 1, 13 \<mapsto> 2],
             mapIndexToEntity = [0 \<mapsto> 11, 1 \<mapsto> 12, 2 \<mapsto> 13],
             size_c = 3\<rparr>
   in dense c \<and>
      (\<exists>c'. ComponentContainer_remove 11 c = Inr c' \<and> dense c' \<and> size_c c' = 2 \<and>
         mapEntityToIndex c' 13 = Some 0 \<and>
         ComponentContainer_get 13 c' = Inr 30 \<and> ComponentContainer_get 12 c' = Inr 20) \<and>
      (\<exists>c'. ComponentContainer_remove 13 c = Inr c' \<and> dense c' \<and> size_c c' = 2 \<and>
         ComponentContainer_get 11 c' = Inr 10 \<and> ComponentContainer_get 12 c' = Inr 20)"
proof -
  define c3 where "c3 = \<lparr>components = (\<lambda>index. 0 :: int)(0 := 10, 1 := 20, 2 := 30),
             mapEntityToIndex = [11 \<mapsto> 0, 12 \<mapsto> 1, 13 \<mapsto> 2],
             mapIndexToEntity = [0 \<mapsto> 11, 1 \<mapsto> 12, 2 \<mapsto> 13],
             size_c = 3\<rparr>"
  have "ComponentContainer_run [Insert 11 10, Insert 12 20, Insert 13 30]
      (ComponentContainer_init 0) = Inr c3"
    by (simp add: and_then_def ComponentContainer_insert_def ComponentContainer_init_def
        ENTITY_MAX_def c3_def)
  then have d3: "dense c3"
    by (rule dense_reached)
  have first: "mapEntityToIndex c3 11 = Some 0" and last: "mapEntityToIndex c3 13 = Some 2"
    by (simp_all add: c3_def)
  from remove_keeps_dense [OF d3 first] obtain c'
    where r: "ComponentContainer_remove 11 c3 = Inr c'" and d': "dense c'"
    by blast
  have "ComponentContainer_remove 11 c3 =
      Inr \<lparr>components = (\<lambda>index. 0 :: int)(0 := 10, 1 := 20, 2 := 30, 0 := 30),
           mapEntityToIndex = [11 \<mapsto> 0, 12 \<mapsto> 1, 13 \<mapsto> 0](11 := None),
           mapIndexToEntity = [0 \<mapsto> 11, 1 \<mapsto> 12, 2 \<mapsto> 13, 0 \<mapsto> 13](2 := None),
           size_c = 2\<rparr>"
    by (simp add: ComponentContainer_remove_def ENTITY_MAX_def c3_def)
  with r have "size_c c' = 2 \<and> mapEntityToIndex c' 13 = Some 0 \<and>
      ComponentContainer_get 13 c' = Inr 30 \<and> ComponentContainer_get 12 c' = Inr 20"
    by (auto simp: ComponentContainer_get_def ENTITY_MAX_def)
  with r d' have A: "\<exists>c'. ComponentContainer_remove 11 c3 = Inr c' \<and> dense c' \<and> size_c c' = 2 \<and>
         mapEntityToIndex c' 13 = Some 0 \<and>
         ComponentContainer_get 13 c' = Inr 30 \<and> ComponentContainer_get 12 c' = Inr 20"
    by blast
  from remove_keeps_dense [OF d3 last] obtain c''
    where r: "ComponentContainer_remove 13 c3 = Inr c''" and d'': "dense c''"
    by blast
  have "ComponentContainer_remove 13 c3 =
      Inr \<lparr>components = (\<lambda>index. 0 :: int)(0 := 10, 1 := 20, 2 := 30, 2 := 30),
           mapEntityToIndex = [11 \<mapsto> 0, 12 \<mapsto> 1, 13 \<mapsto> 2, 13 \<mapsto> 2](13 := None),
           mapIndexToEntity = [0 \<mapsto> 11, 1 \<mapsto> 12, 2 \<mapsto> 13, 2 \<mapsto> 13](2 := None),
           size_c = 2\<rparr>"
    by (simp add: ComponentContainer_remove_def ENTITY_MAX_def c3_def)
  with r have "size_c c'' = 2 \<and>
      ComponentContainer_get 11 c'' = Inr 10 \<and> ComponentContainer_get 12 c'' = Inr 20"
    by (auto simp: ComponentContainer_get_def ENTITY_MAX_def)
  with r d'' have B: "\<exists>c'. ComponentContainer_remove 13 c3 = Inr c' \<and> dense c' \<and> size_c c' = 2 \<and>
         ComponentContainer_get 11 c' = Inr 10 \<and> ComponentContainer_get 12 c' = Inr 20"
    by blast
  from d3 A B show ?thesis
    unfolding Let_def c3_def by blast
qed

section \<open>System manager and registry: the code at the inputs where claims fail\<close>

text \<open>The definitions that evaluate a run of calls on concrete managers.\<close>

lemmas manager_eval =
  and_then_def unordered_map_insert_def
  SystemManager_init_def SystemManager_install_def SystemManager_signature_def
  SystemManager_signatureChanged_def SystemManager_entityDestroyed_def
  logical_and_def signature_of_bool_def
  ComponentManager_init_def ComponentManager_install_def ComponentManager_getType_def
  ComponentManager_getContainer_def ComponentManager_get_def ComponentManager_add_def
  ComponentManager_remove_def ComponentManager_destroyed_def
  ComponentContainer_init_def ComponentContainer_get_def ComponentContainer_insert_def
  ComponentContainer_remove_def ComponentContainer_destroyed_def
  bitset_set_def COMPONENT_MAX_def
  EntityManager_signature_def EntityManager_signature_set_def EntityManager_destroy_def

lemmas registry_eval =
  Registry_init_def Registry_entityCreate_def Registry_entityDestroy_def
  Registry_componentAdd_def Registry_componentGet_def Registry_componentInstall_def
  Registry_componentRemove_def Registry_componentType_def Registry_systemInstall_def
  Registry_systemSignature_def init_create create_fill ENTITY_MAX_def

text \<open>
  Claim C1 says that the test of \<open>signatureChanged\<close> is the bitwise AND of the signature
  with the mask, compared with the mask. The code applies \<open>&&\<close>. For a system with mask
  1 (bit 0) and an entity whose new signature is 2 (bit 1 only) the code inserts the
  entity, though \<open>2 AND 1\<close> is not the mask; for mask 3 and signature 3 it removes the
  entity, though \<open>3 AND 3\<close> is the mask.
\<close>

theorem signatureChanged_uses_logical_and:
  "SystemManager_signature ''S'' 1 (projr (SystemManager_install ''S'' SystemManager_init)) =
     Inr \<lparr>systemSignatures = [''S'' \<mapsto> 1], systems = [(''S'', \<lparr>entities = {}\<rparr>)]\<rparr> \<and>
   systems (SystemManager_signatureChanged 7 2
     \<lparr>systemSignatures = [''S'' \<mapsto> 1], systems = [(''S'', \<lparr>entities = {}\<rparr>)]\<rparr>) =
     [(''S'', \<lparr>entities = {7}\<rparr>)] \<and>
   (2 AND 1 :: Signature) \<noteq> 1 \<and>
   systems (SystemManager_signatureChanged 7 3
     \<lparr>systemSignatures = [''S'' \<mapsto> 3], systems = [(''S'', \<lparr>entities = {7}\<rparr>)]\<rparr>) =
     [(''S'', \<lparr>entities = {}\<rparr>)] \<and>
   (3 AND 3 :: Signature) = 3"
  by (simp add: manager_eval)

text \<open>
  Claim C2 says that after any sequence of facade calls an entity is in the set of a
  system exactly when it is live and its signature has every bit of the mask. The code
  breaks this through the logical \<open>&&\<close> of \<open>signatureChanged\<close>: with a system of mask 1
  and two entities, the first given the component of bit 0 and the second the component of
  bit 1, entity 1 ends in the set of the system while its signature, 2, lacks bit 0.
\<close>

theorem membership_without_required_bit:
  "\<not> isl (Registry_run 0 [SystemInstall ''S'', SystemSignature ''S'' 1, EntityCreate, EntityCreate,
       ComponentAdd ''A'' 0 10, ComponentAdd ''B'' 1 20] (Registry_init :: int Registry)) \<and>
   systems (systemManager (projr (Registry_run 0 [SystemInstall ''S'', SystemSignature ''S'' 1,
       EntityCreate, EntityCreate, ComponentAdd ''A'' 0 10, ComponentAdd ''B'' 1 20]
       (Registry_init :: int Registry)))) = [(''S'', \<lparr>entities = {1, 0}\<rparr>)] \<and>
   systemSignatures (systemManager (projr (Registry_run 0 [SystemInstall ''S'', SystemSignature ''S'' 1,
       EntityCreate, EntityCreate, ComponentAdd ''A'' 0 10, ComponentAdd ''B'' 1 20]
       (Registry_init :: int Registry)))) ''S'' = Some 1 \<and>
   EntityManager_signature 1 (entityManager (projr (Registry_run 0 [SystemInstall ''S'',
       SystemSignature ''S'' 1, EntityCreate, EntityCreate, ComponentAdd ''A'' 0 10,
       ComponentAdd ''B'' 1 20] (Registry_init :: int Registry)))) = Inr 2 \<and>
   (2 AND 1 :: Signature) \<noteq> 1"
  by (simp add: registry_eval manager_eval)

text \<open>
  Claim C3 says that \<open>componentAdd<T>\<close> registers \<open>T\<close> only when it is not registered yet,
  so that a second call fails with \<open>DuplicateComponent\<close> for the same entity and succeeds
  for another entity. The code calls \<open>install<T>\<close> without looking: the second call fails
  in the assertion of \<open>install\<close>, \<open>DuplicateRegistration\<close>, for the same entity and for
  another one alike. The first call succeeds.
\<close>

theorem componentAdd_twice_fails_in_install:
  "Registry_run 0 [EntityCreate, ComponentAdd ''Position'' 0 10, ComponentAdd ''Position'' 0 10]
     (Registry_init :: int Registry) = Inl DuplicateRegistration \<and>
   Registry_run 0 [EntityCreate, EntityCreate, ComponentAdd ''Position'' 0 10,
       ComponentAdd ''Position'' 1 20]
     (Registry_init :: int Registry) = Inl DuplicateRegistration \<and>
   \<not> isl (Registry_run 0 [EntityCreate, EntityCreate, ComponentAdd ''Position'' 0 10]
     (Registry_init :: int Registry))"
  by (simp add: registry_eval manager_eval)

text \<open>
  Claim C4 says that setting the mask of a system replaces the mask stored before. The
  code stores with \<open>insert\<close>, which does not overwrite: after the masks 2 and 1 are set in
  this order the stored mask is still 2, and the notification for an entity of signature
  1 leaves it out of the system, where the mask 1 would take it in. The call on a system
  that was never installed fails with \<open>NotRegistered\<close>, as the claim says.
\<close>

theorem signature_keeps_first_mask:
  "SystemManager_signature ''S'' 1 SystemManager_init = Inl NotRegistered \<and>
   SystemManager_signature ''S'' 1 (projr (SystemManager_signature ''S'' 2
       (projr (SystemManager_install ''S'' SystemManager_init)))) =
     Inr \<lparr>systemSignatures = [''S'' \<mapsto> 2], systems = [(''S'', \<lparr>entities = {}\<rparr>)]\<rparr> \<and>
   systems (SystemManager_signatureChanged 7 1
     \<lparr>systemSignatures = [''S'' \<mapsto> 2], systems = [(''S'', \<lparr>entities = {}\<rparr>)]\<rparr>) =
     [(''S'', \<lparr>entities = {}\<rparr>)] \<and>
   systems (SystemManager_signatureChanged 7 1
     \<lparr>systemSignatures = [''S'' \<mapsto> 1], systems = [(''S'', \<lparr>entities = {}\<rparr>)]\<rparr>) =
     [(''S'', \<lparr>entities = {7}\<rparr>)]"
  by (simp add: manager_eval)

text \<open>
  Claim C7 says that the bit of a component type is set in the signature of an entity
  exactly when the container of the type has an entry for the entity. \<open>componentAdd\<close>
  sets the bit and never calls \<open>ComponentManager::add\<close>: after one call the bit of
  \<open>Position\<close>, bit 0, is set for entity 0 and the container has no entry for it
  (\<open>componentGet\<close> fails with \<open>MissingComponent\<close>).
\<close>

theorem componentAdd_sets_bit_without_entry:
  "\<not> isl (Registry_run 0 [EntityCreate, ComponentAdd ''Position'' 0 10] (Registry_init :: int Registry)) \<and>
   Registry_componentType ''Position''
     (projr (Registry_run 0 [EntityCreate, ComponentAdd ''Position'' 0 10] (Registry_init :: int Registry))) =
     Inr 0 \<and>
   bit (entitySignatures (entityManager
     (projr (Registry_run 0 [EntityCreate, ComponentAdd ''Position'' 0 10] (Registry_init :: int Registry)))) 0) 0 \<and>
   Registry_componentGet ''Position'' 0
     (projr (Registry_run 0 [EntityCreate, ComponentAdd ''Position'' 0 10] (Registry_init :: int Registry))) =
     Inl MissingComponent"
  by (simp add: registry_eval manager_eval)


end
